theory Spec2Isabelle
  imports Complex_Main
begin

section \<open>Strings\<close>

text \<open>
  A JavaScript string is modelled as a \<^typ>\<open>string\<close>. The only separator the export
  code looks for is the space character U+0020, so \<open>text.split(' ')\<close> cuts the text at
  every single space: an empty text gives one empty word, and two adjacent spaces give an
  empty word between them.
\<close>

fun split_from :: "string \<Rightarrow> string \<Rightarrow> string list" where
  "split_from cur [] = [cur]"
| "split_from cur (c # cs) =
     (if c = CHR '' '' then cur # split_from [] cs else split_from (cur @ [c]) cs)"

definition split_space :: "string \<Rightarrow> string list" where
  "split_space text = split_from [] text"

text \<open>\<open>lines.join(' ')\<close>.\<close>

fun join_space :: "string list \<Rightarrow> string" where
  "join_space [] = []"
| "join_space [l] = l"
| "join_space (l # ls) = l @ '' '' @ join_space ls"

text \<open>
  Whitespace normalisation as the specification words it: runs of spaces collapse to one
  space and leading and trailing spaces go. The words of a text are the non-empty pieces
  between spaces.
\<close>

definition words_of :: "string \<Rightarrow> string list" where
  "words_of s = filter (\<lambda>w. w \<noteq> []) (split_space s)"

definition normalize_spaces :: "string \<Rightarrow> string" where
  "normalize_spaces s = join_space (words_of s)"

section \<open>Canvas effects\<close>

text \<open>
  The drawing code acts on a 2D context and on the document. Every call that leaves a
  trace is logged, in order. Assignments of \<open>fillStyle\<close>, \<open>font\<close>, \<open>textAlign\<close>,
  \<open>textBaseline\<close> and of the shadow settings are not logged; the font in force only
  matters to \<open>measureText\<close>, which is a parameter of the model.
\<close>

datatype effect =
    CreateCanvas real real
  | FillRect real real real real
  | ArcFill real real real
  | RoundRectFill real real real real real
  | FillText string real real
  | ToDataURL string real
  | Download string

fun fillTexts :: "effect list \<Rightarrow> string list" where
  "fillTexts [] = []"
| "fillTexts (FillText t x y # es) = t # fillTexts es"
| "fillTexts (e # es) = fillTexts es"

section \<open>Word wrap\<close>

text \<open>
  The loop of \<open>wrapText\<close> (and, with the same body, the inline loop of the video frame):
  \<^verbatim>\<open>
  for (let n = 0; n < words.length; n++) {
    const testLine = line + words[n] + ' ';
    const metrics = ctx.measureText(testLine);
    if (metrics.width > maxWidth && n > 0) {
      ctx.fillText(line, x, drawY);
      line = words[n] + ' ';
      drawY += lineHeight;
    } else {
      line = testLine;
    }
  }
  \<close>
  The state is the index \<open>n\<close>, the current \<open>line\<close>, \<open>drawY\<close> and the effect log.
\<close>

fun wrapLoop ::
  "(string \<Rightarrow> real) \<Rightarrow> real \<Rightarrow> real \<Rightarrow> real \<Rightarrow> string list \<Rightarrow> nat \<Rightarrow> string \<Rightarrow> real \<Rightarrow> effect list
     \<Rightarrow> string \<times> real \<times> effect list" where
  "wrapLoop measureText x maxWidth lineHeight [] n line drawY drawn = (line, drawY, drawn)"
| "wrapLoop measureText x maxWidth lineHeight (w # ws) n line drawY drawn =
     (let testLine = line @ w @ '' '' in
      if measureText testLine > maxWidth \<and> n > 0
      then wrapLoop measureText x maxWidth lineHeight ws (Suc n) (w @ '' '')
             (drawY + lineHeight) (drawn @ [FillText line x drawY])
      else wrapLoop measureText x maxWidth lineHeight ws (Suc n) testLine drawY drawn)"

text \<open>
  \<open>wrapText(text, x, y, maxWidth, lineHeight)\<close>: the loop, the flush of the last line and
  the returned \<open>drawY + lineHeight\<close>. The result is the return value and the calls made.
\<close>

definition wrapText ::
  "(string \<Rightarrow> real) \<Rightarrow> string \<Rightarrow> real \<Rightarrow> real \<Rightarrow> real \<Rightarrow> real \<Rightarrow> real \<times> effect list" where
  "wrapText measureText text x y maxWidth lineHeight =
     (case wrapLoop measureText x maxWidth lineHeight (split_space text) 0 [] y [] of
        (line, drawY, drawn) \<Rightarrow> (drawY + lineHeight, drawn @ [FillText line x drawY]))"

text \<open>
  The greedy wrap in the specification's words: accumulate words into a line, measure the
  rendered width, and break to a new line whenever adding the next word would exceed the
  available width, flushing the current line first. A line is the list of the words on
  it and is rendered with single spaces between them; the result is the list of the
  lines flushed, the last line included. The width function and the available width are
  parameters.
\<close>

fun greedy_from :: "(string \<Rightarrow> real) \<Rightarrow> real \<Rightarrow> string list \<Rightarrow> string list \<Rightarrow> string list" where
  "greedy_from width avail [] cur = [join_space cur]"
| "greedy_from width avail (w # ws) cur =
     (if width (join_space (cur @ [w])) > avail
      then join_space cur # greedy_from width avail ws [w]
      else greedy_from width avail ws (cur @ [w]))"

definition greedy_wrap_spec :: "(string \<Rightarrow> real) \<Rightarrow> real \<Rightarrow> string list \<Rightarrow> string list" where
  "greedy_wrap_spec width avail ws = greedy_from width avail ws []"

text \<open>Lines drawn from a starting height, each one line height below the one before.\<close>

fun drawLines :: "real \<Rightarrow> real \<Rightarrow> real \<Rightarrow> string list \<Rightarrow> effect list" where
  "drawLines x y lineHeight [] = []"
| "drawLines x y lineHeight (l # ls) = FillText l x y # drawLines x (y + lineHeight) lineHeight ls"

text \<open>
  The strings the loop measures when it never breaks: each word-boundary prefix of the
  text, closed by the space the loop appends.
\<close>

fun testLines :: "string \<Rightarrow> string list \<Rightarrow> string list" where
  "testLines line [] = []"
| "testLines line (w # ws) = (line @ w @ '' '') # testLines (line @ w @ '' '') ws"

text \<open>A fixed-pitch font: every character advances the pen by the same width.\<close>

definition fixed_pitch :: "real \<Rightarrow> string \<Rightarrow> real" where
  "fixed_pitch advance s = advance * real (length s)"

section \<open>More of the string library\<close>

text \<open>
  Each \<^typ>\<open>char\<close> stands for one code unit below 256. The white space that
  \<open>String.prototype.trim\<close> strips is, in that range, TAB, LF, VT, FF, CR, SPACE and
  the no-break space U+00A0.
\<close>

definition is_whitespace :: "char \<Rightarrow> bool" where
  "is_whitespace c = (of_char c \<in> {9, 10, 11, 12, 13, 32, 160 :: nat})"

definition trim :: "string \<Rightarrow> string" where
  "trim s = rev (dropWhile is_whitespace (rev (dropWhile is_whitespace s)))"

text \<open>
  \<open>toUpperCase\<close> on the letters \<open>a\<close> to \<open>z\<close>; the type tag it is applied to is one
  of \<open>text\<close>, \<open>audio\<close> and \<open>both\<close> by the table's check constraint.
\<close>

definition upperOf :: "char \<Rightarrow> char" where
  "upperOf c =
     (case map_of (zip ''abcdefghijklmnopqrstuvwxyz'' ''ABCDEFGHIJKLMNOPQRSTUVWXYZ'') c of
        None \<Rightarrow> c
      | Some u \<Rightarrow> u)"

definition toUpperCase :: "string \<Rightarrow> string" where
  "toUpperCase s = map upperOf s"

text \<open>The decimal digits of an integer, as a template literal prints a number.\<close>

fun digits :: "nat \<Rightarrow> string" where
  "digits n =
     (if n < 10 then [''0123456789'' ! n]
      else digits (n div 10) @ [''0123456789'' ! (n mod 10)])"

declare digits.simps [simp del]

definition numberToString :: "int \<Rightarrow> string" where
  "numberToString i = (if i < 0 then CHR ''-'' # digits (nat (- i)) else digits (nat i))"

section \<open>Data model\<close>

text \<open>
  A row of the \<open>messages\<close> table. The columns an insert may set come first; the store
  fills in the others. An absent or null column is \<open>None\<close>.
\<close>

record payload =
  recipient_id :: string
  message_text :: "string option"
  audio_url :: "string option"
  message_type :: string

record message = payload +
  msg_id :: string
  is_read :: bool
  created_at :: string

record profile =
  profile_id :: string
  username :: string
  display_name :: string

text \<open>Of a \<open>Blob\<close> only its \<open>type\<close> is read.\<close>

record blob =
  blob_type :: string

section \<open>Send view\<close>

datatype request =
    StorageUpload string string string
  | InsertMessage payload

text \<open>
  \<open>sendTextMessage\<close> returns without a request when there is no profile or the trimmed
  text is empty; otherwise it inserts the trimmed text with the type tag \<open>text\<close>.
\<close>

definition sendTextMessage :: "profile option \<Rightarrow> string \<Rightarrow> request list" where
  "sendTextMessage prof messageText =
     (case prof of
        None \<Rightarrow> []
      | Some p \<Rightarrow>
          if trim messageText = [] then []
          else [InsertMessage \<lparr>recipient_id = profile_id p,
                               message_text = Some (trim messageText),
                               audio_url = None,
                               message_type = ''text''\<rparr>])"

text \<open>The table \<open>extMap\<close> of \<open>sendAudioMessage\<close>, in the order of the source.\<close>

definition extMap :: "(string \<times> string) list" where
  "extMap =
     [(''audio/webm'', ''webm''),
      (''audio/webm;codecs=opus'', ''webm''),
      (''audio/mpeg'', ''mp3''),
      (''audio/mp3'', ''mp3''),
      (''audio/mp4'', ''m4a''),
      (''audio/aac'', ''m4a''),
      (''audio/wav'', ''wav''),
      (''audio/ogg'', ''ogg''),
      (''audio/ogg;codecs=opus'', ''ogg'')]"

text \<open>
  \<open>extMap\<close> is an object literal, so \<open>extMap[mime]\<close> also finds what the object
  inherits from \<open>Object.prototype\<close>: eleven functions and the accessor \<open>__proto__\<close>,
  whose value is the prototype object. All of them are truthy, and the template literal
  turns them into the strings below (a built-in function as V8 prints it).
\<close>

definition nativeFunction :: "string \<Rightarrow> string" where
  "nativeFunction name = ''function '' @ name @ ''() { [native code] }''"

definition objectPrototype :: "(string \<times> string) list" where
  "objectPrototype =
     [(''constructor'', nativeFunction ''Object''),
      (''__defineGetter__'', nativeFunction ''__defineGetter__''),
      (''__defineSetter__'', nativeFunction ''__defineSetter__''),
      (''hasOwnProperty'', nativeFunction ''hasOwnProperty''),
      (''__lookupGetter__'', nativeFunction ''__lookupGetter__''),
      (''__lookupSetter__'', nativeFunction ''__lookupSetter__''),
      (''isPrototypeOf'', nativeFunction ''isPrototypeOf''),
      (''propertyIsEnumerable'', nativeFunction ''propertyIsEnumerable''),
      (''toString'', nativeFunction ''toString''),
      (''valueOf'', nativeFunction ''valueOf''),
      (''__proto__'', ''[object Object]''),
      (''toLocaleString'', nativeFunction ''toLocaleString'')]"

text \<open>\<open>extMap[mime]\<close>: an own property first, an inherited one otherwise.\<close>

definition extMapGet :: "string \<Rightarrow> string option" where
  "extMapGet mime =
     (case map_of extMap mime of
        Some ext \<Rightarrow> Some ext
      | None \<Rightarrow> map_of objectPrototype mime)"

text \<open>\<open>a || b\<close> on strings: \<open>b\<close> when \<open>a\<close> is undefined or empty.\<close>

definition or_else :: "string option \<Rightarrow> string \<Rightarrow> string" where
  "or_else a b = (case a of None \<Rightarrow> b | Some v \<Rightarrow> if v = [] then b else v)"

definition audioMime :: "blob \<Rightarrow> string" where
  "audioMime audioBlob = or_else (Some (blob_type audioBlob)) ''audio/webm''"

definition audioExt :: "string \<Rightarrow> string" where
  "audioExt mime = or_else (extMapGet mime) ''webm''"

definition audioFileName :: "int \<Rightarrow> profile \<Rightarrow> string \<Rightarrow> string" where
  "audioFileName now p ext = numberToString now @ ''-'' @ profile_id p @ ''.'' @ ext"

text \<open>
  \<open>sendAudioMessage\<close>: \<open>now\<close> is the value of \<open>Date.now()\<close>, \<open>uploadError\<close> tells whether
  the upload reported an error, in which case the function throws before the insert.
\<close>

definition sendAudioMessage :: "profile option \<Rightarrow> blob option \<Rightarrow> int \<Rightarrow> bool \<Rightarrow> request list" where
  "sendAudioMessage prof audioBlob now uploadError =
     (case (prof, audioBlob) of
        (Some p, Some b) \<Rightarrow>
          (let mime = audioMime b;
               ext = audioExt mime;
               fileName = audioFileName now p ext;
               upload = StorageUpload ''audio-messages'' fileName mime
           in if uploadError then [upload]
              else [upload,
                    InsertMessage \<lparr>recipient_id = profile_id p,
                                   message_text = None,
                                   audio_url = Some (''audio-messages/'' @ fileName),
                                   message_type = ''audio''\<rparr>])
      | _ \<Rightarrow> [])"

section \<open>Dashboard\<close>

text \<open>
  \<open>markAsRead\<close> sends the update and, unless it reports an error, maps the local list:
  \<open>msg.id === messageId ? { ...msg, is_read: true } : msg\<close>.
\<close>

definition markAsRead :: "bool \<Rightarrow> string \<Rightarrow> message list \<Rightarrow> message list" where
  "markAsRead error messageId prev =
     (if \<not> error
      then map (\<lambda>msg. if msg_id msg = messageId then msg\<lparr>is_read := True\<rparr> else msg) prev
      else prev)"

subsection \<open>Video frames\<close>

text \<open>
  In \<open>drawFrame\<close>, \<open>elapsed = (Date.now() - startTime) / 1000\<close> and
  \<open>progress = Math.min(elapsed / duration, 1)\<close>. Numbers are real numbers here.
\<close>

definition elapsed :: "int \<Rightarrow> int \<Rightarrow> real" where
  "elapsed now startTime = real_of_int (now - startTime) / 1000"

definition progress :: "real \<Rightarrow> real \<Rightarrow> real" where
  "progress t duration = min (t / duration) 1"

text \<open>
  The end of \<open>drawFrame\<close>: \<open>if (elapsed < duration + 1) requestAnimationFrame(drawFrame)\<close>,
  else \<open>recorder.stop()\<close>.
\<close>

datatype frame_action = RequestFrame | StopRecorder

definition frameStep :: "real \<Rightarrow> int \<Rightarrow> int \<Rightarrow> frame_action" where
  "frameStep duration startTime now =
     (if elapsed now startTime < duration + 1 then RequestFrame else StopRecorder)"

text \<open>
  The frame loop over the readings of \<open>Date.now()\<close> at the successive calls of
  \<open>drawFrame\<close>: the reading at which it calls \<open>recorder.stop()\<close>, or nothing when the
  calls delivered so far all ask for another frame.
\<close>

fun frameStop :: "real \<Rightarrow> int \<Rightarrow> int list \<Rightarrow> int option" where
  "frameStop duration startTime [] = None"
| "frameStop duration startTime (now # ticks) =
     (case frameStep duration startTime now of
        RequestFrame \<Rightarrow> frameStop duration startTime ticks
      | StopRecorder \<Rightarrow> Some now)"

text \<open>
  \<open>audio.onended\<close> sets a timer of 500 milliseconds whose callback calls
  \<open>recorder.stop()\<close>; \<open>ended\<close> is the time of the event, and the callback is
  taken to run when it is due.
\<close>

definition endedStop :: "int \<Rightarrow> int" where
  "endedStop ended = ended + 500"

text \<open>
  The time of the first call of \<open>recorder.stop()\<close>, given the frame readings and the
  time of the end event, if it fires (it does not when \<open>play()\<close> is rejected and the
  frames are drawn all the same).
\<close>

definition firstStop :: "real \<Rightarrow> int \<Rightarrow> int list \<Rightarrow> int option \<Rightarrow> int option" where
  "firstStop duration startTime ticks ended =
     (case (frameStop duration startTime ticks, ended) of
        (None, None) \<Rightarrow> None
      | (Some t, None) \<Rightarrow> Some t
      | (None, Some e) \<Rightarrow> Some (endedStop e)
      | (Some t, Some e) \<Rightarrow> Some (min t (endedStop e)))"

subsection \<open>Still image\<close>

text \<open>
  What \<open>downloadMessage\<close> takes from its surroundings: whether \<open>getContext('2d')\<close> gave
  a context, the width \<open>measureText\<close> reports for a text in a font, the successive values
  of \<open>Math.random()\<close>, and \<open>format(new Date(created_at), pattern)\<close>.
\<close>

record env =
  hasContext :: bool
  measureText :: "string \<Rightarrow> string \<Rightarrow> real"
  mathRandom :: "nat \<Rightarrow> real"
  formatDate :: "string \<Rightarrow> string \<Rightarrow> string"

definition placeholder :: string where
  "placeholder = ''Pesan audio diterima. Putar di Dashboard kamu.''"

definition contentFont :: string where
  "contentFont = ''400 36px Inter, system-ui, -apple-system, Segoe UI, Roboto, Arial''"

definition badgeFont :: string where
  "badgeFont = ''600 28px Inter, system-ui, -apple-system, Segoe UI, Roboto, Arial''"

text \<open>The glyph drawn beside the bars, as the four bytes of the source.\<close>

definition noteGlyph :: string where
  "noteGlyph = [CHR 0xF0, CHR 0x9F, CHR 0x8E, CHR 0xB5]"

text \<open>
  \<open>message.message_text && message.message_text.trim().length > 0 ? message.message_text
  : placeholder\<close>; null and the empty string are falsy.
\<close>

definition contentText :: "message \<Rightarrow> string" where
  "contentText msg =
     (case message_text msg of
        None \<Rightarrow> placeholder
      | Some t \<Rightarrow> if t \<noteq> [] \<and> length (trim t) > 0 then t else placeholder)"

definition polkaDots :: "env \<Rightarrow> effect list" where
  "polkaDots e =
     map (\<lambda>i. ArcFill (mathRandom e (3 * i) * 1080) (mathRandom e (3 * i + 1) * 1080)
                 (8 + mathRandom e (3 * i + 2) * 12)) [0..<50]"

text \<open>Background, dots, card, title and badge: all that is drawn before the content.\<close>

definition beforeContent :: "env \<Rightarrow> message \<Rightarrow> effect list" where
  "beforeContent e msg =
     (let width = 1080; height = 1080; pad = 72;
          cardX = pad; cardY = pad; cardW = width - pad * 2; cardH = height - pad * 2;
          title = (if message_type msg = ''audio'' then ''Anonymous Audio Message''
                   else ''Anonymous Message'');
          badgeText = toUpperCase (message_type msg);
          badgeW = measureText e badgeFont badgeText + 40;
          badgeH = 44; badgeX = cardX + 48; badgeY = cardY + 130
      in [FillRect 0 0 width height] @ polkaDots e @
         [RoundRectFill cardX cardY cardW cardH 32,
          FillText title (cardX + 48) (cardY + 48),
          RoundRectFill badgeX badgeY badgeW badgeH 12,
          FillText badgeText (badgeX + 20) (badgeY + badgeH / 2)])"

text \<open>
  \<open>wrapText(contentText, textStartX, textStartY, textWidth, 48)\<close> with
  \<open>textStartX = 72 + 48\<close>, \<open>textStartY = 72 + 130 + 44 + 32\<close> and
  \<open>textWidth = 1080 - 144 - 96\<close>.
\<close>

definition contentDraws :: "env \<Rightarrow> message \<Rightarrow> real \<times> effect list" where
  "contentDraws e msg = wrapText (measureText e contentFont) (contentText msg) 120 278 840 48"

text \<open>The bars and glyph of an audio message, the footer, the encoding and the download.\<close>

definition waveform :: "env \<Rightarrow> real \<Rightarrow> effect list" where
  "waveform e endY =
     (let bars = 48; textStartX = 120; textWidth = 840;
          baseY = endY + 32;
          barW = (textWidth - (bars - 1) * 6) / bars
      in map (\<lambda>i. let h = 20 + sin (real i * 0.5) * 18 + mathRandom e (150 + i) * 16;
                      x = textStartX + real i * (barW + 6);
                      y = baseY + (64 - h) / 2
                  in RoundRectFill x y barW h 2) [0..<48]
         @ [FillText noteGlyph (textStartX + textWidth - 60) (baseY + 20)])"

definition afterContent :: "env \<Rightarrow> message \<Rightarrow> real \<Rightarrow> effect list" where
  "afterContent e msg endY =
     (if message_type msg = ''audio'' then waveform e endY else []) @
     [FillText (''Diterima: '' @ formatDate e (created_at msg) ''PPp'') (72 + 48) (72 + (1080 - 72 * 2) - 72),
      ToDataURL ''image/jpeg'' 0.92,
      Download (''message-'' @ formatDate e (created_at msg) ''yyyy-MM-dd'' @ ''.jpg'')]"

definition downloadMessage :: "env \<Rightarrow> message \<Rightarrow> effect list" where
  "downloadMessage e msg =
     CreateCanvas 1080 1080 #
     (if \<not> hasContext e then []
      else (case contentDraws e msg of
              (endY, drawn) \<Rightarrow> beforeContent e msg @ drawn @ afterContent e msg endY))"

text \<open>Drawing on the canvas, encoding it and triggering the download are the outputs.\<close>

fun is_output :: "effect \<Rightarrow> bool" where
  "is_output (CreateCanvas w h) = False"
| "is_output e = True"

section \<open>Sample inputs\<close>

text \<open>
  Concrete surroundings and rows at which the theorems below are instantiated: a font in
  which every character is 20 pixels wide, \<open>Math.random()\<close> always one half, dates
  printed as they are stored.
\<close>

definition fixedEnv :: "bool \<Rightarrow> env" where
  "fixedEnv ctx =
     \<lparr>hasContext = ctx,
      measureText = (\<lambda>font. fixed_pitch 20),
      mathRandom = (\<lambda>k. 1 / 2),
      formatDate = (\<lambda>date pattern. date)\<rparr>"

definition audioNote :: "string option \<Rightarrow> message" where
  "audioNote t =
     \<lparr>recipient_id = ''u1'', message_text = t,
      audio_url = Some ''audio-messages/1723250000123-u1.m4a'',
      message_type = ''audio'', msg_id = ''m1'', is_read = False, created_at = ''2025-08-10''\<rparr>"

definition textNote :: "string \<Rightarrow> bool \<Rightarrow> message" where
  "textNote i r =
     \<lparr>recipient_id = ''u1'', message_text = Some ''hi'', audio_url = None,
      message_type = ''text'', msg_id = i, is_read = r, created_at = ''2025-08-11''\<rparr>"

definition bob :: profile where
  "bob = \<lparr>profile_id = ''u1'', username = ''bob'', display_name = ''Bob''\<rparr>"

text \<open>A line that is not empty and ends with a space.\<close>

definition ends_space :: "string \<Rightarrow> bool" where
  "ends_space l = (l \<noteq> [] \<and> last l = CHR '' '')"

section \<open>Properties of the string functions\<close>

lemma split_from_concat:
  "concat (map (\<lambda>w. w @ '' '') (split_from cur s)) = cur @ s @ '' ''"
  by (induction s arbitrary: cur) simp_all

lemma split_from_nonempty: "split_from cur s \<noteq> []"
  by (induction s arbitrary: cur) simp_all

lemma filter_split_from_space:
  "filter (\<lambda>w. w \<noteq> []) (split_from cur (a @ CHR '' '' # b)) =
   filter (\<lambda>w. w \<noteq> []) (split_from cur a) @ filter (\<lambda>w. w \<noteq> []) (split_from [] b)"
  by (induction a arbitrary: cur) simp_all

lemma words_of_space: "words_of (a @ '' '' @ b) = words_of a @ words_of b"
  by (simp add: words_of_def split_space_def filter_split_from_space)

lemma words_of_Nil: "words_of [] = []"
  by (simp add: words_of_def split_space_def)

lemma words_of_trailing: "words_of (a @ '' '') = words_of a"
  using words_of_space [of a "[]"] by (simp add: words_of_Nil)

lemma words_of_join: "words_of (join_space ls) = concat (map words_of ls)"
proof (induction ls rule: join_space.induct)
  case 1
  show ?case by (simp add: words_of_Nil)
next
  case (2 l)
  show ?case by simp
next
  case (3 l k ls)
  have "words_of (join_space (l # k # ls)) = words_of (l @ '' '' @ join_space (k # ls))"
    by simp
  also have "\<dots> = words_of l @ words_of (join_space (k # ls))"
    by (rule words_of_space)
  finally show ?case using 3 by simp
qed

lemma ends_space_split: "ends_space l \<Longrightarrow> \<exists>k. l = k @ '' ''"
  unfolding ends_space_def by (metis append_butlast_last_id)

lemma words_of_concat:
  "list_all ends_space ls \<Longrightarrow> words_of (concat ls) = concat (map words_of ls)"
proof (induction ls)
  case Nil
  show ?case by (simp add: words_of_Nil)
next
  case (Cons l ls)
  then obtain k where k: "l = k @ '' ''" using ends_space_split by auto
  have "words_of (concat (l # ls)) = words_of (k @ '' '' @ concat ls)"
    using k by simp
  also have "\<dots> = words_of k @ words_of (concat ls)"
    by (rule words_of_space)
  also have "words_of k = words_of l"
    using k words_of_trailing by simp
  finally show ?case using Cons by simp
qed

lemma trim_all_whitespace:
  assumes "list_all is_whitespace t"
  shows "trim t = []"
proof -
  have d: "dropWhile is_whitespace t = []"
    using assms by (induction t) simp_all
  show ?thesis unfolding trim_def d by simp
qed

lemma join_space_snoc: "cur \<noteq> [] \<Longrightarrow> join_space (cur @ [w]) = join_space cur @ '' '' @ w"
  by (induction cur rule: join_space.induct) simp_all

section \<open>Properties of the effect log\<close>

lemma fillTexts_append: "fillTexts (a @ b) = fillTexts a @ fillTexts b"
  by (induction a rule: fillTexts.induct) simp_all

lemma fillTexts_polkaDots: "fillTexts (polkaDots e) = []"
proof -
  have "fillTexts (map (\<lambda>i. ArcFill (f i) (g i) (h i)) xs) = []" for f g h and xs :: "nat list"
    by (induction xs) simp_all
  then show ?thesis by (simp add: polkaDots_def)
qed

lemma fillTexts_waveform: "fillTexts (waveform e endY) = [noteGlyph]"
proof -
  have "fillTexts (map (\<lambda>i. RoundRectFill (f i) (g i) w (h i) r) xs) = []"
    for f g h w r and xs :: "nat list"
    by (induction xs) simp_all
  then show ?thesis by (simp add: waveform_def Let_def fillTexts_append)
qed

lemma fillTexts_drawLines: "fillTexts (drawLines x y lh ls) = ls"
  by (induction ls arbitrary: y) simp_all

lemma drawLines_append:
  "drawLines x y lh (a @ b) = drawLines x y lh a @ drawLines x (y + real (length a) * lh) lh b"
  by (induction a arbitrary: y) (simp_all add: algebra_simps)

section \<open>Invariants of the wrap loop\<close>

text \<open>The drawn lines and the current line, put end to end, are the words seen so far.\<close>

lemma wrapLoop_concat:
  "wrapLoop m x W lh ws n line y d = (line', y', d') \<Longrightarrow>
   concat (fillTexts d') @ line' = concat (fillTexts d) @ line @ concat (map (\<lambda>w. w @ '' '') ws)"
proof (induction ws arbitrary: n line y d)
  case Nil
  then show ?case by simp
next
  case (Cons w ws)
  show ?case
  proof (cases "m (line @ w @ '' '') > W \<and> n > 0")
    case True
    with Cons.prems
    have "wrapLoop m x W lh ws (Suc n) (w @ '' '') (y + lh) (d @ [FillText line x y]) = (line', y', d')"
      by simp
    from Cons.IH [OF this] show ?thesis by (simp add: fillTexts_append)
  next
    case False
    with Cons.prems have "wrapLoop m x W lh ws (Suc n) (line @ w @ '' '') y d = (line', y', d')"
      by (simp add: Let_def)
    from Cons.IH [OF this] show ?thesis by simp
  qed
qed

text \<open>After the first word the current line ends with a space, and so does every drawn line.\<close>

lemma wrapLoop_ends_space:
  "wrapLoop m x W lh ws n line y d = (line', y', d') \<Longrightarrow>
   (n > 0 \<longrightarrow> ends_space line) \<Longrightarrow> list_all ends_space (fillTexts d) \<Longrightarrow>
   (n > 0 \<or> ws \<noteq> [] \<longrightarrow> ends_space line') \<and> list_all ends_space (fillTexts d')"
proof (induction ws arbitrary: n line y d)
  case Nil
  then show ?case by simp
next
  case (Cons w ws)
  show ?case
  proof (cases "m (line @ w @ '' '') > W \<and> n > 0")
    case True
    with Cons.prems
    have "wrapLoop m x W lh ws (Suc n) (w @ '' '') (y + lh) (d @ [FillText line x y]) = (line', y', d')"
      by simp
    from Cons.IH [OF this] Cons.prems True show ?thesis
      by (simp add: fillTexts_append ends_space_def)
  next
    case False
    with Cons.prems have "wrapLoop m x W lh ws (Suc n) (line @ w @ '' '') y d = (line', y', d')"
      by (simp add: Let_def)
    from Cons.IH [OF this] Cons.prems show ?thesis by (simp add: ends_space_def)
  qed
qed

text \<open>Every line, drawn or current, fits or holds a single word of \<open>S\<close>.\<close>

lemma wrapLoop_fits:
  "wrapLoop m x W lh ws n line y d = (line', y', d') \<Longrightarrow> set ws \<subseteq> S \<Longrightarrow>
   (n > 0 \<longrightarrow> m line \<le> W \<or> (\<exists>w\<in>S. line = w @ '' '')) \<Longrightarrow>
   (n = 0 \<longrightarrow> line = []) \<Longrightarrow>
   (\<forall>l\<in>set (fillTexts d). m l \<le> W \<or> (\<exists>w\<in>S. l = w @ '' '')) \<Longrightarrow>
   (n > 0 \<or> ws \<noteq> [] \<longrightarrow> m line' \<le> W \<or> (\<exists>w\<in>S. line' = w @ '' '')) \<and>
   (\<forall>l\<in>set (fillTexts d'). m l \<le> W \<or> (\<exists>w\<in>S. l = w @ '' ''))"
proof (induction ws arbitrary: n line y d)
  case Nil
  then show ?case by simp
next
  case (Cons w ws)
  have wS: "w \<in> S" and wsS: "set ws \<subseteq> S" using Cons.prems(2) by simp_all
  show ?case
  proof (cases "m (line @ w @ '' '') > W \<and> n > 0")
    case True
    with Cons.prems
    have "wrapLoop m x W lh ws (Suc n) (w @ '' '') (y + lh) (d @ [FillText line x y]) = (line', y', d')"
      by simp
    from Cons.IH [OF this wsS] Cons.prems(3,5) True wS show ?thesis
      by (auto simp add: fillTexts_append)
  next
    case False
    with Cons.prems have *: "wrapLoop m x W lh ws (Suc n) (line @ w @ '' '') y d = (line', y', d')"
      by (simp add: Let_def)
    have "m (line @ w @ '' '') \<le> W \<or> (\<exists>v\<in>S. line @ w @ '' '' = v @ '' '')"
    proof (cases "n > 0")
      case True
      with False show ?thesis by simp
    next
      case first: False
      with Cons.prems(4) wS show ?thesis by simp
    qed
    from Cons.IH [OF * wsS] this Cons.prems(5) show ?thesis
      by auto
  qed
qed

lemma wrapLoop_no_break:
  "\<forall>t\<in>set (testLines line ws). m t \<le> W \<Longrightarrow>
   wrapLoop m x W lh ws n line y d = (line @ concat (map (\<lambda>w. w @ '' '') ws), y, d)"
  by (induction ws arbitrary: n line) (simp_all add: Let_def)

lemma wrapText_lines_concat:
  "concat (fillTexts (snd (wrapText m txt x y W lh))) = txt @ '' ''"
proof -
  obtain line drawY drawn where
    r: "wrapLoop m x W lh (split_space txt) 0 [] y [] = (line, drawY, drawn)"
    by (metis prod_cases3)
  from wrapLoop_concat [OF r] have "concat (fillTexts drawn) @ line = txt @ '' ''"
    by (simp add: split_space_def split_from_concat)
  with r show ?thesis by (simp add: wrapText_def fillTexts_append)
qed

lemma wrapText_lines_end_space:
  "list_all ends_space (fillTexts (snd (wrapText m txt x y W lh)))"
proof -
  obtain line drawY drawn where
    r: "wrapLoop m x W lh (split_space txt) 0 [] y [] = (line, drawY, drawn)"
    by (metis prod_cases3)
  have "split_space txt \<noteq> []" by (simp add: split_space_def split_from_nonempty)
  with wrapLoop_ends_space [OF r] have "ends_space line \<and> list_all ends_space (fillTexts drawn)"
    by simp
  with r show ?thesis by (simp add: wrapText_def fillTexts_append)
qed

lemma wrapText_lines_fit:
  "\<forall>l\<in>set (fillTexts (snd (wrapText m txt x y W lh))).
     m l \<le> W \<or> (\<exists>w\<in>set (split_space txt). l = w @ '' '')"
proof -
  obtain line drawY drawn where
    r: "wrapLoop m x W lh (split_space txt) 0 [] y [] = (line, drawY, drawn)"
    by (metis prod_cases3)
  have ne: "split_space txt \<noteq> []" by (simp add: split_space_def split_from_nonempty)
  have "(0 < (0::nat) \<or> split_space txt \<noteq> [] \<longrightarrow>
           m line \<le> W \<or> (\<exists>w\<in>set (split_space txt). line = w @ '' '')) \<and>
        (\<forall>l\<in>set (fillTexts drawn). m l \<le> W \<or> (\<exists>w\<in>set (split_space txt). l = w @ '' ''))"
    by (rule wrapLoop_fits [OF r]) simp_all
  then show ?thesis
    using r ne by (simp add: wrapText_def fillTexts_append)
qed

text \<open>What the routine draws and returns is fixed by the lines it emits.\<close>

lemma wrapLoop_draws:
  "wrapLoop m x W lh ws n line y d = (line', y', d') \<Longrightarrow>
   \<exists>ls. d' = d @ drawLines x y lh ls \<and> y' = y + real (length ls) * lh"
proof (induction ws arbitrary: n line y d)
  case Nil
  then have "d' = d @ drawLines x y lh [] \<and> y' = y + real (length ([]::string list)) * lh"
    by simp
  then show ?case by blast
next
  case (Cons w ws)
  show ?case
  proof (cases "m (line @ w @ '' '') > W \<and> n > 0")
    case True
    with Cons.prems
    have "wrapLoop m x W lh ws (Suc n) (w @ '' '') (y + lh) (d @ [FillText line x y]) = (line', y', d')"
      by simp
    from Cons.IH [OF this] obtain ls where
      ls: "d' = (d @ [FillText line x y]) @ drawLines x (y + lh) lh ls"
          "y' = y + lh + real (length ls) * lh"
      by blast
    then have "d' = d @ drawLines x y lh (line # ls) \<and> y' = y + real (length (line # ls)) * lh"
      by (simp add: algebra_simps)
    then show ?thesis by blast
  next
    case False
    with Cons.prems have "wrapLoop m x W lh ws (Suc n) (line @ w @ '' '') y d = (line', y', d')"
      by (simp add: Let_def)
    from Cons.IH [OF this] show ?thesis .
  qed
qed

lemma wrapText_draws:
  "wrapText m txt x y W lh =
     (y + real (length (fillTexts (snd (wrapText m txt x y W lh)))) * lh,
      drawLines x y lh (fillTexts (snd (wrapText m txt x y W lh))))"
proof -
  obtain line drawY drawn where
    r: "wrapLoop m x W lh (split_space txt) 0 [] y [] = (line, drawY, drawn)"
    by (metis prod_cases3)
  from wrapLoop_draws [OF r] obtain ls where
    ls: "drawn = drawLines x y lh ls" "drawY = y + real (length ls) * lh"
    by auto
  have w: "wrapText m txt x y W lh = (drawY + lh, drawLines x y lh (ls @ [line]))"
    using r ls by (simp add: wrapText_def drawLines_append)
  then have f: "fillTexts (snd (wrapText m txt x y W lh)) = ls @ [line]"
    by (simp add: fillTexts_drawLines)
  show ?thesis unfolding f using w ls(2) by (simp add: algebra_simps)
qed

text \<open>
  Once a word is on the line, the loop is the greedy wrap run with every line measured
  with one more space, and it emits each line with that space.
\<close>

lemma wrapLoop_refines:
  "n > 0 \<Longrightarrow> cur \<noteq> [] \<Longrightarrow>
   wrapLoop m x W lh ws n (join_space cur @ '' '') y d = (line', y', d') \<Longrightarrow>
   fillTexts d' @ [line'] =
     fillTexts d @ map (\<lambda>l. l @ '' '') (greedy_from (\<lambda>s. m (s @ '' '')) W ws cur)"
proof (induction ws arbitrary: n cur y d)
  case Nil
  then show ?case by simp
next
  case (Cons w ws)
  have step: "wrapLoop m x W lh (w # ws) n (join_space cur @ '' '') y d =
     (if m (join_space (cur @ [w]) @ '' '') > W
      then wrapLoop m x W lh ws (Suc n) (join_space [w] @ '' '') (y + lh)
             (d @ [FillText (join_space cur @ '' '') x y])
      else wrapLoop m x W lh ws (Suc n) (join_space (cur @ [w]) @ '' '') y d)"
    using Cons.prems(1,2) by (simp add: Let_def join_space_snoc)
  show ?case
  proof (cases "m (join_space (cur @ [w]) @ '' '') > W")
    case True
    with Cons.prems(3) step
    have "wrapLoop m x W lh ws (Suc n) (join_space [w] @ '' '') (y + lh)
            (d @ [FillText (join_space cur @ '' '') x y]) = (line', y', d')"
      by (simp only: if_True)
    from Cons.IH [OF _ _ this] True show ?thesis
      by (simp add: fillTexts_append)
  next
    case False
    with Cons.prems(3) step
    have "wrapLoop m x W lh ws (Suc n) (join_space (cur @ [w]) @ '' '') y d = (line', y', d')"
      by (simp only: if_False)
    from Cons.IH [OF _ _ this] False show ?thesis
      by simp
  qed
qed

lemma wrapText_lines_greedy:
  "fillTexts (snd (wrapText m txt x y W lh)) =
     map (\<lambda>l. l @ '' '')
       (greedy_from (\<lambda>s. m (s @ '' '')) W (tl (split_space txt)) [hd (split_space txt)])"
proof -
  obtain w ws where ws: "split_space txt = w # ws"
    using split_from_nonempty [of "[]" "txt"]
    by (cases "split_space txt") (simp_all add: split_space_def)
  obtain line drawY drawn where
    r: "wrapLoop m x W lh ws (Suc 0) (join_space [w] @ '' '') y [] = (line, drawY, drawn)"
    by (metis prod_cases3)
  have "fillTexts drawn @ [line] =
     fillTexts [] @ map (\<lambda>l. l @ '' '') (greedy_from (\<lambda>s. m (s @ '' '')) W ws [w])"
    by (rule wrapLoop_refines [OF _ _ r]) simp_all
  moreover have "wrapLoop m x W lh (split_space txt) 0 [] y [] = (line, drawY, drawn)"
    using r by (simp add: ws Let_def)
  ultimately show ?thesis
    by (simp add: wrapText_def ws fillTexts_append)
qed

section \<open>The word wrap\<close>

text \<open>
  C1 (as amended). The wrap routine of the image export is the greedy wrap of the
  specification with two departures. Every line is measured with one space after its
  last word, and is drawn with that space. The first word goes on the first line
  without a test that can break; for every later word the routine measures the current
  line extended by the word and the space and, when that width exceeds the available
  width, first draws the current line and then starts a new line, one line height
  lower, with the word. So the calls and the returned height are those of the greedy
  wrap started with the first word on the line; when the first word with its space is no
  wider than the available width, the lines are those of the greedy wrap itself. Every
  emitted line, measured as it is drawn, fits the available width or holds a single
  word.
\<close>

theorem wrap_refines_greedy:
  "wrapText m txt x y W lh =
     (y + real (length (greedy_from (\<lambda>s. m (s @ '' '')) W (tl (split_space txt))
                          [hd (split_space txt)])) * lh,
      drawLines x y lh
        (map (\<lambda>l. l @ '' '')
           (greedy_from (\<lambda>s. m (s @ '' '')) W (tl (split_space txt)) [hd (split_space txt)])))
   \<and> (m (hd (split_space txt) @ '' '') \<le> W \<longrightarrow>
        fillTexts (snd (wrapText m txt x y W lh)) =
          map (\<lambda>l. l @ '' '') (greedy_wrap_spec (\<lambda>s. m (s @ '' '')) W (split_space txt)))
   \<and> (\<forall>l\<in>set (fillTexts (snd (wrapText m txt x y W lh))).
         m l \<le> W \<or> (\<exists>w\<in>set (split_space txt). l = w @ '' ''))"
proof -
  let ?g = "greedy_from (\<lambda>s. m (s @ '' '')) W (tl (split_space txt)) [hd (split_space txt)]"
  have l: "fillTexts (snd (wrapText m txt x y W lh)) = map (\<lambda>l. l @ '' '') ?g"
    by (rule wrapText_lines_greedy)
  have a: "wrapText m txt x y W lh =
     (y + real (length ?g) * lh, drawLines x y lh (map (\<lambda>l. l @ '' '') ?g))"
    using wrapText_draws [of m "txt" x y W lh] by (simp add: l)
  obtain w ws where ws: "split_space txt = w # ws"
    using split_from_nonempty [of "[]" "txt"]
    by (cases "split_space txt") (simp_all add: split_space_def)
  have b: "m (hd (split_space txt) @ '' '') \<le> W \<longrightarrow>
        fillTexts (snd (wrapText m txt x y W lh)) =
          map (\<lambda>l. l @ '' '') (greedy_wrap_spec (\<lambda>s. m (s @ '' '')) W (split_space txt))"
    by (simp add: l ws greedy_wrap_spec_def)
  from a b wrapText_lines_fit [of m "txt" x y W lh] show ?thesis by blast
qed

theorem wrap_refines_greedy_witness:
  "fixed_pitch 20 (hd (split_space ''aaaaaaaaaaaaaaaaaaaa bbbbbbbbbbbbbbbbbbbbb'') @ '' '') \<le> 840
   \<and> wrapText (fixed_pitch 20) ''aaaaaaaaaaaaaaaaaaaa bbbbbbbbbbbbbbbbbbbbb'' 120 278 840 48
       = (374, [FillText ''aaaaaaaaaaaaaaaaaaaa '' 120 278, FillText ''bbbbbbbbbbbbbbbbbbbbb '' 120 326])
   \<and> fixed_pitch 20 ''aaaaaaaaaaaaaaaaaaaa '' \<le> 840 \<and> fixed_pitch 20 ''bbbbbbbbbbbbbbbbbbbbb '' \<le> 840"
proof -
  note t = wrap_refines_greedy [of "fixed_pitch 20" "''aaaaaaaaaaaaaaaaaaaa bbbbbbbbbbbbbbbbbbbbb''" 120 278 840 48]
  have h: "fixed_pitch 20 (hd (split_space ''aaaaaaaaaaaaaaaaaaaa bbbbbbbbbbbbbbbbbbbbb'') @ '' '') \<le> 840"
    by (simp add: split_space_def fixed_pitch_def)
  from t h have "fillTexts (snd (wrapText (fixed_pitch 20) ''aaaaaaaaaaaaaaaaaaaa bbbbbbbbbbbbbbbbbbbbb'' 120 278 840 48)) =
      map (\<lambda>l. l @ '' '')
        (greedy_wrap_spec (\<lambda>s. fixed_pitch 20 (s @ '' '')) 840 (split_space ''aaaaaaaaaaaaaaaaaaaa bbbbbbbbbbbbbbbbbbbbb''))"
    by blast
  then have ls: "fillTexts (snd (wrapText (fixed_pitch 20) ''aaaaaaaaaaaaaaaaaaaa bbbbbbbbbbbbbbbbbbbbb'' 120 278 840 48))
      = [''aaaaaaaaaaaaaaaaaaaa '', ''bbbbbbbbbbbbbbbbbbbbb '']"
    by (simp add: greedy_wrap_spec_def split_space_def fixed_pitch_def)
  from t have "wrapText (fixed_pitch 20) ''aaaaaaaaaaaaaaaaaaaa bbbbbbbbbbbbbbbbbbbbb'' 120 278 840 48 =
     (278 + real (length (greedy_from (\<lambda>s. fixed_pitch 20 (s @ '' '')) 840
                            (tl (split_space ''aaaaaaaaaaaaaaaaaaaa bbbbbbbbbbbbbbbbbbbbb'')) [hd (split_space ''aaaaaaaaaaaaaaaaaaaa bbbbbbbbbbbbbbbbbbbbb'')])) * 48,
      drawLines 120 278 48
        (map (\<lambda>l. l @ '' '')
           (greedy_from (\<lambda>s. fixed_pitch 20 (s @ '' '')) 840
              (tl (split_space ''aaaaaaaaaaaaaaaaaaaa bbbbbbbbbbbbbbbbbbbbb'')) [hd (split_space ''aaaaaaaaaaaaaaaaaaaa bbbbbbbbbbbbbbbbbbbbb'')])))"
    by blast
  then have w: "wrapText (fixed_pitch 20) ''aaaaaaaaaaaaaaaaaaaa bbbbbbbbbbbbbbbbbbbbb'' 120 278 840 48
       = (374, [FillText ''aaaaaaaaaaaaaaaaaaaa '' 120 278, FillText ''bbbbbbbbbbbbbbbbbbbbb '' 120 326])"
    by (simp add: split_space_def fixed_pitch_def)
  have f: "fixed_pitch 20 ''aaaaaaaaaaaaaaaaaaaa '' \<le> 840 \<and> fixed_pitch 20 ''bbbbbbbbbbbbbbbbbbbbb '' \<le> 840"
    by (simp add: fixed_pitch_def)
  from h w f show ?thesis by blast
qed

text \<open>
  With the text measured as it stands the routine is not that greedy wrap. A text of two
  words that is exactly 840 pixels wide in a 20-pixel font stays on one line in the
  greedy wrap, and the routine, which measures 860 pixels with the space, draws two
  lines. A single word of 43 characters is wider than 840 pixels: the greedy wrap
  flushes the empty line before it, the routine draws the word on the first line.
\<close>

theorem wrap_not_spec_greedy_counterexample:
  "fixed_pitch 20 ''cccccccccccccccccccc ddddddddddddddddddddd'' \<le> 840
   \<and> greedy_wrap_spec (fixed_pitch 20) 840 (split_space ''cccccccccccccccccccc ddddddddddddddddddddd'') = [''cccccccccccccccccccc ddddddddddddddddddddd'']
   \<and> fillTexts (snd (wrapText (fixed_pitch 20) ''cccccccccccccccccccc ddddddddddddddddddddd'' 120 278 840 48))
       = [''cccccccccccccccccccc '', ''ddddddddddddddddddddd '']
   \<and> fixed_pitch 20 ''xxxxxxxxxxxxxxxxxxxxxxxxxxxxxxxxxxxxxxxxxxx'' > 840
   \<and> greedy_wrap_spec (fixed_pitch 20) 840 (split_space ''xxxxxxxxxxxxxxxxxxxxxxxxxxxxxxxxxxxxxxxxxxx'') = [[], ''xxxxxxxxxxxxxxxxxxxxxxxxxxxxxxxxxxxxxxxxxxx'']
   \<and> wrapText (fixed_pitch 20) ''xxxxxxxxxxxxxxxxxxxxxxxxxxxxxxxxxxxxxxxxxxx'' 120 278 840 48 = (326, [FillText ''xxxxxxxxxxxxxxxxxxxxxxxxxxxxxxxxxxxxxxxxxxx '' 120 278])"
  by (simp add: wrapText_def greedy_wrap_spec_def split_space_def fixed_pitch_def)

text \<open>
  C3 (as amended). When every line the routine measures, that is each word-boundary
  prefix of the text closed by the space the routine appends, is no wider than
  \<open>maxWidth\<close>, the routine makes exactly one \<open>fillText\<close> call: the whole text followed
  by one space, at the starting position.
\<close>

theorem wrap_single_line:
  assumes "\<forall>t\<in>set (testLines [] (split_space txt)). m t \<le> W"
  shows "wrapText m txt x y W lh = (y + lh, [FillText (txt @ '' '') x y])"
  using wrapLoop_no_break [OF assms, of x lh 0 y "[]"]
  by (simp add: wrapText_def split_space_def split_from_concat)

theorem wrap_single_line_witness:
  "set (testLines [] (split_space ''hello world'')) = {''hello '', ''hello world ''}
   \<and> fixed_pitch 20 ''hello '' \<le> 840 \<and> fixed_pitch 20 ''hello world '' \<le> 840
   \<and> wrapText (fixed_pitch 20) ''hello world'' 120 278 840 48
       = (326, [FillText ''hello world '' 120 278])"
  using wrap_single_line [of "''hello world''" "fixed_pitch 20" 840 120 278 48]
  by (simp add: split_space_def fixed_pitch_def)

text \<open>
  It is not enough that the text itself is no wider than \<open>maxWidth\<close>. A text of 42
  characters in two words is exactly 840 pixels wide in a 20-pixel font, and so no part
  of it is wider, but the routine measures it with a trailing space, 860 pixels, and
  draws two lines.
\<close>

theorem wrap_boundary_counterexample:
  "fixed_pitch 20 ''aaaaaaaaaaaaaaaaaaaa bbbbbbbbbbbbbbbbbbbbb'' \<le> 840
   \<and> wrapText (fixed_pitch 20) ''aaaaaaaaaaaaaaaaaaaa bbbbbbbbbbbbbbbbbbbbb'' 120 278 840 48
       = (374, [FillText ''aaaaaaaaaaaaaaaaaaaa '' 120 278, FillText ''bbbbbbbbbbbbbbbbbbbbb '' 120 326])"
  by (simp add: wrapText_def split_space_def fixed_pitch_def)

text \<open>
  C4. Joining the emitted lines with single spaces gives the original text up to
  whitespace normalisation: the non-empty words are the same, in the same order, and
  the normalised texts are equal.
\<close>

theorem wrap_join_words:
  "words_of (join_space (fillTexts (snd (wrapText m txt x y W lh)))) = words_of txt
   \<and> normalize_spaces (join_space (fillTexts (snd (wrapText m txt x y W lh))))
       = normalize_spaces txt"
proof -
  let ?ls = "fillTexts (snd (wrapText m txt x y W lh))"
  have "words_of (join_space ?ls) = concat (map words_of ?ls)"
    by (rule words_of_join)
  also have "\<dots> = words_of (concat ?ls)"
    by (rule words_of_concat [symmetric]) (rule wrapText_lines_end_space)
  also have "\<dots> = words_of txt"
    by (simp only: wrapText_lines_concat words_of_trailing)
  finally have w: "words_of (join_space ?ls) = words_of txt" .
  then show ?thesis by (simp add: normalize_spaces_def)
qed

theorem wrap_join_words_witness:
  "words_of (join_space (fillTexts (snd (wrapText (fixed_pitch 20) '' aaaaaaaaaaaaaaaaaaaa  bbbbbbbbbbbbbbbbbbbbb '' 120 278 840 48))))
     = [''aaaaaaaaaaaaaaaaaaaa'', ''bbbbbbbbbbbbbbbbbbbbb'']
   \<and> normalize_spaces (join_space (fillTexts (snd (wrapText (fixed_pitch 20) '' aaaaaaaaaaaaaaaaaaaa  bbbbbbbbbbbbbbbbbbbbb '' 120 278 840 48))))
     = ''aaaaaaaaaaaaaaaaaaaa bbbbbbbbbbbbbbbbbbbbb''"
  using wrap_join_words [of "fixed_pitch 20" "'' aaaaaaaaaaaaaaaaaaaa  bbbbbbbbbbbbbbbbbbbbb ''" 120 278 840 48]
  by (simp add: words_of_def normalize_spaces_def split_space_def)

section \<open>Progress of the video frame\<close>

lemma progress_mono: "0 < d \<Longrightarrow> t \<le> t' \<Longrightarrow> progress t d \<le> progress t' d"
  unfolding progress_def by (intro min.mono divide_right_mono) simp_all

lemma elapsed_mono: "now \<le> now' \<Longrightarrow> elapsed now s \<le> elapsed now' s"
  unfolding elapsed_def by (simp add: divide_right_mono)

text \<open>
  C2. For a duration \<open>d > 0\<close> and an elapsed time \<open>t \<ge> 0\<close> the progress of the frame
  callback is \<open>min (t / d) 1\<close>, and it does not decrease when \<open>t\<close> grows; in
  particular it does not decrease from one reading of the clock to a later one.
\<close>

theorem progress_min_mono:
  assumes "0 < d" and "0 \<le> t" and "t \<le> t'"
  shows "progress t d = min (t / d) 1 \<and> progress t d \<le> progress t' d
         \<and> (startTime \<le> now \<and> now \<le> now' \<longrightarrow>
              progress (elapsed now startTime) d \<le> progress (elapsed now' startTime) d)"
  using assms progress_mono elapsed_mono by (simp add: progress_def)

theorem progress_min_mono_witness:
  "(0::real) < 4 \<and> (0::real) \<le> 1 \<and> (1::real) \<le> 6
   \<and> progress 1 4 = 1 / 4 \<and> progress 6 4 = 1 \<and> progress 1 4 \<le> progress 6 4
   \<and> (1000::int) \<le> 2000 \<and> (2000::int) \<le> 7000
   \<and> progress (elapsed 2000 1000) 4 \<le> progress (elapsed 7000 1000) 4"
  using progress_min_mono [of 4 1 6 1000 2000 7000]
  by (simp add: progress_def)

section \<open>The end of the recording\<close>

lemma frameStop_Some:
  "frameStop d s ticks = Some t \<Longrightarrow>
   (\<exists>pre post. ticks = pre @ t # post \<and> (\<forall>u\<in>set pre. elapsed u s < d + 1))
   \<and> d + 1 \<le> elapsed t s"
proof (induction ticks)
  case Nil
  then show ?case by simp
next
  case (Cons now ticks)
  show ?case
  proof (cases "elapsed now s < d + 1")
    case True
    with Cons.prems have "frameStop d s ticks = Some t" by (simp add: frameStep_def)
    from Cons.IH [OF this] obtain pre post where
      p: "ticks = pre @ t # post" "\<forall>u\<in>set pre. elapsed u s < d + 1" and late: "d + 1 \<le> elapsed t s"
      by blast
    from p True have "now # ticks = (now # pre) @ t # post \<and> (\<forall>u\<in>set (now # pre). elapsed u s < d + 1)"
      by simp
    with late show ?thesis by blast
  next
    case False
    with Cons.prems have "t = now" by (simp add: frameStep_def)
    with False have "now # ticks = [] @ t # ticks \<and> (\<forall>u\<in>set ([]::int list). elapsed u s < d + 1)
        \<and> d + 1 \<le> elapsed t s"
      by simp
    then show ?thesis by blast
  qed
qed

lemma frameStop_None: "(frameStop d s ticks = None) = (\<forall>u\<in>set ticks. elapsed u s < d + 1)"
  by (induction ticks) (simp_all add: frameStep_def)

text \<open>
  C5 (as amended). On each frame tick the loop asks for another frame exactly while
  \<open>elapsed < d + 1\<close> and otherwise calls \<open>recorder.stop()\<close>. So on the frame path the
  recorder is stopped at the first tick whose elapsed time is at least \<open>d + 1\<close>
  seconds, not before \<open>d + 1\<close> seconds after the start, and it is stopped as soon as
  such a tick comes. Independently the end event of the audio sets the stop 500
  milliseconds after the event, and the first stop is at whichever of the two is
  earlier. A stop earlier than \<open>d + 1\<close> seconds after the start can only be the one
  set by the end event.
\<close>

theorem stop_at_first_late_tick:
  "(frameStep d s now = RequestFrame) = (elapsed now s < d + 1)
   \<and> (frameStop d s ticks = Some t \<longrightarrow>
        (\<exists>pre post. ticks = pre @ t # post \<and> (\<forall>u\<in>set pre. elapsed u s < d + 1))
        \<and> d + 1 \<le> elapsed t s)
   \<and> ((\<exists>u\<in>set ticks. d + 1 \<le> elapsed u s) \<longrightarrow> (\<exists>t'. frameStop d s ticks = Some t'))
   \<and> firstStop d s ticks None = frameStop d s ticks
   \<and> firstStop d s ticks (Some e)
       = Some (case frameStop d s ticks of None \<Rightarrow> e + 500 | Some t' \<Rightarrow> min t' (e + 500))
   \<and> (firstStop d s ticks ended = Some t \<and> elapsed t s < d + 1 \<longrightarrow>
        (\<exists>e'. ended = Some e' \<and> t = e' + 500))"
proof -
  have a: "(frameStep d s now = RequestFrame) = (elapsed now s < d + 1)"
    by (simp add: frameStep_def)
  have b: "frameStop d s ticks = Some t \<longrightarrow>
        (\<exists>pre post. ticks = pre @ t # post \<and> (\<forall>u\<in>set pre. elapsed u s < d + 1))
        \<and> d + 1 \<le> elapsed t s"
    using frameStop_Some by blast
  have c: "(\<exists>u\<in>set ticks. d + 1 \<le> elapsed u s) \<longrightarrow> (\<exists>t'. frameStop d s ticks = Some t')"
    using frameStop_None [of d s ticks] by (cases "frameStop d s ticks") auto
  have e1: "firstStop d s ticks None = frameStop d s ticks"
    by (simp add: firstStop_def split: option.split)
  have e2: "firstStop d s ticks (Some e)
       = Some (case frameStop d s ticks of None \<Rightarrow> e + 500 | Some t' \<Rightarrow> min t' (e + 500))"
    by (simp add: firstStop_def endedStop_def split: option.split)
  have f: "firstStop d s ticks ended = Some t \<and> elapsed t s < d + 1 \<longrightarrow>
        (\<exists>e'. ended = Some e' \<and> t = e' + 500)"
  proof
    assume h: "firstStop d s ticks ended = Some t \<and> elapsed t s < d + 1"
    have nf: "frameStop d s ticks \<noteq> Some t"
      using frameStop_Some [of d s ticks t] h by auto
    show "\<exists>e'. ended = Some e' \<and> t = e' + 500"
    proof (cases ended)
      case None
      with h e1 nf show ?thesis by simp
    next
      case (Some e')
      with h nf have "t = e' + 500"
        by (auto simp: firstStop_def endedStop_def min_def split: option.splits if_splits)
      with Some show ?thesis by simp
    qed
  qed
  from a b c e1 e2 f show ?thesis by blast
qed

theorem stop_at_first_late_tick_witness:
  "frameStop 4 0 [0, 4990, 5010] = Some 5010
   \<and> elapsed 4990 0 < 4 + 1 \<and> 4 + 1 \<le> elapsed 5010 0
   \<and> firstStop 4 0 [0, 4990, 5010] None = Some 5010
   \<and> firstStop 4 0 [0, 4990, 5010] (Some 4100) = Some 4600
   \<and> elapsed 4600 0 < 4 + 1"
proof -
  note t = stop_at_first_late_tick [of 4 0 4990 "[0, 4990, 5010]" 5010 4100 "Some 4100"]
  note t' = stop_at_first_late_tick [of 4 0 5010 "[0, 4990, 5010]" 4600 4100 "Some 4100"]
  have l: "4 + 1 \<le> elapsed 5010 0" by (simp add: elapsed_def)
  have m: "(5010::int) \<in> set [0, 4990, 5010]" by simp
  from t l m obtain u where u: "frameStop 4 0 [0, 4990, 5010] = Some u" by blast
  have e: "elapsed 4990 0 < 4 + 1" by (simp add: elapsed_def)
  with t have rf: "frameStep 4 0 4990 = RequestFrame" by blast
  have u5: "frameStop 4 0 [0, 4990, 5010] = Some 5010"
    by (simp add: frameStep_def elapsed_def)
  from t u5 have n: "firstStop 4 0 [0, 4990, 5010] None = Some 5010" by simp
  from t u5 have s: "firstStop 4 0 [0, 4990, 5010] (Some 4100) = Some 4600" by simp
  have w: "elapsed 4600 0 < 4 + 1" by (simp add: elapsed_def)
  from t' s w have "\<exists>e'. Some (4100::int) = Some e' \<and> (4600::int) = e' + 500" by blast
  from u5 e l n s w show ?thesis by blast
qed

text \<open>
  The stop need not come within \<open>d + 1\<close> seconds of the start. With a duration of 4
  seconds, frames at 0, 4990 and 5010 milliseconds and no end event (playback did not
  start, the frames are drawn all the same), the recorder is stopped at 5.01 seconds.
\<close>

theorem stop_after_margin_counterexample:
  "(0::real) < 4
   \<and> firstStop 4 0 [0, 4990, 5010] None = Some 5010
   \<and> elapsed 5010 0 > 4 + 1"
  by (simp add: firstStop_def frameStep_def elapsed_def)

section \<open>The stored audio object\<close>

lemma audioMime_type:
  "audioMime b = (if blob_type b = [] then ''audio/webm'' else blob_type b)"
  by (simp add: audioMime_def or_else_def)

lemma extMap_values: "map_of extMap mime = Some v \<Longrightarrow> v \<noteq> []"
  by (drule map_of_SomeD) (auto simp: extMap_def)

lemma objectPrototype_no_slash: "mime \<in> fst ` set objectPrototype \<Longrightarrow> CHR ''/'' \<notin> set mime"
  by (auto simp: objectPrototype_def)

text \<open>
  For a type in the table the extension is its entry. For a type outside the table that
  names nothing inherited, so for every type with a slash in it, the extension is
  \<open>webm\<close>.
\<close>

lemma audioExt_table:
  "(map_of extMap mime = Some ext \<longrightarrow> audioExt mime = ext)
   \<and> (mime \<notin> fst ` set extMap \<and> mime \<notin> fst ` set objectPrototype \<longrightarrow> audioExt mime = ''webm'')
   \<and> (mime \<notin> fst ` set extMap \<and> CHR ''/'' \<in> set mime \<longrightarrow> audioExt mime = ''webm'')"
proof -
  have a: "map_of extMap mime = Some ext \<longrightarrow> audioExt mime = ext"
    by (auto simp: audioExt_def extMapGet_def or_else_def dest: extMap_values)
  have b: "mime \<notin> fst ` set extMap \<and> mime \<notin> fst ` set objectPrototype \<longrightarrow> audioExt mime = ''webm''"
    by (simp add: audioExt_def extMapGet_def or_else_def map_of_eq_None_iff [THEN iffD2])
  from a b objectPrototype_no_slash [of mime] show ?thesis by blast
qed

text \<open>
  The object is uploaded to the bucket \<open>audio-messages\<close> under
  \<open><epoch-millis>-<recipientId>.<ext>\<close> and the inserted row refers to it with the
  bucket name in front; when the upload fails, the upload is the only request. The
  extension is computed from the type of the blob, \<open>audio/webm\<close> standing in for an
  empty type.
\<close>

lemma audio_object_path:
  "sendAudioMessage (Some p) (Some b) now False =
     [StorageUpload ''audio-messages''
        (numberToString now @ ''-'' @ profile_id p @ ''.'' @ audioExt (audioMime b)) (audioMime b),
      InsertMessage \<lparr>recipient_id = profile_id p, message_text = None,
        audio_url = Some (''audio-messages/'' @ numberToString now @ ''-'' @ profile_id p @ ''.''
                          @ audioExt (audioMime b)),
        message_type = ''audio''\<rparr>]
   \<and> sendAudioMessage (Some p) (Some b) now True =
     [StorageUpload ''audio-messages''
        (numberToString now @ ''-'' @ profile_id p @ ''.'' @ audioExt (audioMime b)) (audioMime b)]"
  by (simp add: sendAudioMessage_def audioFileName_def Let_def)

lemma audio_mp4_example:
  "sendAudioMessage (Some bob) (Some \<lparr>blob_type = ''audio/mp4''\<rparr>) 1723250000123 False =
       [StorageUpload ''audio-messages'' ''1723250000123-u1.m4a'' ''audio/mp4'',
        InsertMessage \<lparr>recipient_id = ''u1'', message_text = None,
          audio_url = Some ''audio-messages/1723250000123-u1.m4a'', message_type = ''audio''\<rparr>]
   \<and> audioExt ''audio/x-flac'' = ''webm''"
  by (simp add: sendAudioMessage_def Let_def audioFileName_def numberToString_def digits.simps
        bob_def audioMime_def audioExt_def extMapGet_def extMap_def objectPrototype_def
        nativeFunction_def or_else_def)


section \<open>The still image\<close>

text \<open>
  C7. When the text of a message is null, empty or made of white space only, the image
  export wraps and draws the fixed placeholder as the content text; when the trimmed
  text is not empty it wraps and draws the text as it is stored. With a context, the
  calls of that wrap are the content part of what \<open>downloadMessage\<close> draws. This holds
  for every type tag, so for \<open>audio\<close>.
\<close>

theorem content_text_fallback:
  "((message_text msg = None \<or> (\<exists>t. message_text msg = Some t \<and> list_all is_whitespace t)) \<longrightarrow>
      contentText msg = placeholder
      \<and> contentDraws e msg = wrapText (measureText e contentFont) placeholder 120 278 840 48)
   \<and> (\<forall>t. message_text msg = Some t \<and> trim t \<noteq> [] \<longrightarrow>
        contentText msg = t
        \<and> contentDraws e msg = wrapText (measureText e contentFont) t 120 278 840 48)
   \<and> (hasContext e \<longrightarrow>
        downloadMessage e msg =
          CreateCanvas 1080 1080 # beforeContent e msg @ snd (contentDraws e msg)
            @ afterContent e msg (fst (contentDraws e msg)))"
proof -
  have a: "(message_text msg = None \<or> (\<exists>t. message_text msg = Some t \<and> list_all is_whitespace t)) \<longrightarrow>
      contentText msg = placeholder"
    by (auto simp: contentText_def trim_all_whitespace)
  have b: "\<forall>t. message_text msg = Some t \<and> trim t \<noteq> [] \<longrightarrow> contentText msg = t"
    by (auto simp: contentText_def trim_def)
  have c: "hasContext e \<longrightarrow>
        downloadMessage e msg =
          CreateCanvas 1080 1080 # beforeContent e msg @ snd (contentDraws e msg)
            @ afterContent e msg (fst (contentDraws e msg))"
    by (simp add: downloadMessage_def split: prod.split)
  from a b c show ?thesis by (auto simp: contentDraws_def)
qed

theorem content_text_fallback_witness:
  "message_type (audioNote (Some ''  '')) = ''audio''
   \<and> message_text (audioNote (Some ''  '')) = Some ''  '' \<and> list_all is_whitespace ''  ''
   \<and> contentText (audioNote (Some ''  '')) = placeholder
   \<and> message_text (audioNote None) = None
   \<and> contentText (audioNote None) = placeholder
   \<and> message_text (audioNote (Some '' hi '')) = Some '' hi '' \<and> trim '' hi '' = ''hi''
   \<and> contentText (audioNote (Some '' hi '')) = '' hi ''
   \<and> hasContext (fixedEnv True)
   \<and> fillTexts (downloadMessage (fixedEnv True) (audioNote None)) =
       [''Anonymous Audio Message'', ''AUDIO'',
        ''Pesan audio diterima. Putar di Dashboard '', ''kamu. '',
        noteGlyph, ''Diterima: 2025-08-10'']"
proof -
  have h1: "message_text (audioNote (Some ''  '')) = Some ''  '' \<and> list_all is_whitespace ''  ''"
    by (simp add: audioNote_def is_whitespace_def)
  have h2: "message_text (audioNote None) = None" by (simp add: audioNote_def)
  have h3: "message_text (audioNote (Some '' hi '')) = Some '' hi '' \<and> trim '' hi '' = ''hi''"
    by (simp add: audioNote_def trim_def is_whitespace_def)
  have h4: "hasContext (fixedEnv True)" by (simp add: fixedEnv_def)
  have ty: "message_type (audioNote (Some ''  '')) = ''audio''" by (simp add: audioNote_def)
  from content_text_fallback [of "audioNote (Some ''  '')" "fixedEnv True"] h1
  have c1: "contentText (audioNote (Some ''  '')) = placeholder" by blast
  from content_text_fallback [of "audioNote None" "fixedEnv True"] h2
  have c2: "contentText (audioNote None) = placeholder" by blast
  from content_text_fallback [of "audioNote (Some '' hi '')" "fixedEnv True"] h3
  have c3: "contentText (audioNote (Some '' hi '')) = '' hi ''" by force
  have w: "wrapText (measureText (fixedEnv True) contentFont) placeholder 120 278 840 48
           = (374, [FillText ''Pesan audio diterima. Putar di Dashboard '' 120 278,
                    FillText ''kamu. '' 120 326])"
    by (simp add: wrapText_def split_space_def placeholder_def fixedEnv_def fixed_pitch_def)
  from content_text_fallback [of "audioNote None" "fixedEnv True"] h2 h4
  have d: "downloadMessage (fixedEnv True) (audioNote None) =
          CreateCanvas 1080 1080 # beforeContent (fixedEnv True) (audioNote None)
            @ snd (wrapText (measureText (fixedEnv True) contentFont) placeholder 120 278 840 48)
            @ afterContent (fixedEnv True) (audioNote None)
                (fst (wrapText (measureText (fixedEnv True) contentFont) placeholder 120 278 840 48))"
    by simp
  have f: "fillTexts (downloadMessage (fixedEnv True) (audioNote None)) =
       [''Anonymous Audio Message'', ''AUDIO'',
        ''Pesan audio diterima. Putar di Dashboard '', ''kamu. '',
        noteGlyph, ''Diterima: 2025-08-10'']"
    unfolding d w
    by (simp add: fillTexts_append fillTexts_polkaDots fillTexts_waveform beforeContent_def
          afterContent_def Let_def audioNote_def fixedEnv_def toUpperCase_def upperOf_def)
  from ty h1 c1 h2 c2 h3 c3 h4 f show ?thesis by blast
qed

text \<open>
  C8. When no 2D context can be acquired, the still-image export stops after creating
  the canvas element: it draws nothing, encodes no JPEG and triggers no download.
\<close>

theorem no_context_no_output:
  assumes "\<not> hasContext e"
  shows "downloadMessage e msg = [CreateCanvas 1080 1080]
         \<and> filter is_output (downloadMessage e msg) = []"
  using assms by (simp add: downloadMessage_def)

theorem no_context_no_output_witness:
  "\<not> hasContext (fixedEnv False)
   \<and> downloadMessage (fixedEnv False) (audioNote None) = [CreateCanvas 1080 1080]
   \<and> filter is_output (downloadMessage (fixedEnv False) (audioNote None)) = []"
proof -
  have h: "\<not> hasContext (fixedEnv False)" by (simp add: fixedEnv_def)
  from no_context_no_output [OF h, of "audioNote None"] h show ?thesis by blast
qed

section \<open>Rows written by the send view\<close>

text \<open>
  C9. A row inserted by \<open>sendTextMessage\<close> has the type tag \<open>text\<close>, the trimmed
  input as its text, which is not empty, and no audio reference. A row inserted by
  \<open>sendAudioMessage\<close> has the type tag \<open>audio\<close>, a non-empty audio reference and no
  text. Neither has the tag \<open>both\<close>, and each has exactly one of text and audio.
\<close>

theorem send_view_one_of:
  "(InsertMessage r \<in> set (sendTextMessage prof messageText) \<longrightarrow>
      message_type r = ''text'' \<and> message_text r = Some (trim messageText)
      \<and> trim messageText \<noteq> [] \<and> audio_url r = None)
   \<and> (InsertMessage r \<in> set (sendAudioMessage prof audioBlob now uploadError) \<longrightarrow>
      message_type r = ''audio'' \<and> (\<exists>path. audio_url r = Some path \<and> path \<noteq> [])
      \<and> message_text r = None)
   \<and> (InsertMessage r \<in> set (sendTextMessage prof messageText)
                          \<union> set (sendAudioMessage prof audioBlob now uploadError) \<longrightarrow>
      message_type r \<noteq> ''both'' \<and> (message_text r = None) \<noteq> (audio_url r = None))"
  by (auto simp: sendTextMessage_def sendAudioMessage_def Let_def
           split: option.splits if_splits)

theorem send_view_one_of_witness:
  "InsertMessage \<lparr>recipient_id = ''u1'', message_text = Some ''hi'', audio_url = None,
                   message_type = ''text''\<rparr> \<in> set (sendTextMessage (Some bob) ''  hi '')
   \<and> trim ''  hi '' = ''hi''
   \<and> InsertMessage \<lparr>recipient_id = ''u1'', message_text = None,
                     audio_url = Some ''audio-messages/1723250000123-u1.m4a'',
                     message_type = ''audio''\<rparr>
       \<in> set (sendAudioMessage (Some bob) (Some \<lparr>blob_type = ''audio/mp4''\<rparr>) 1723250000123 False)
   \<and> ''audio'' \<noteq> ''both'' \<and> ''text'' \<noteq> ''both''"
proof -
  let ?t = "\<lparr>recipient_id = ''u1'', message_text = Some ''hi'', audio_url = None,
             message_type = ''text''\<rparr>"
  let ?a = "\<lparr>recipient_id = ''u1'', message_text = None,
             audio_url = Some ''audio-messages/1723250000123-u1.m4a'',
             message_type = ''audio''\<rparr>"
  let ?b = "Some \<lparr>blob_type = ''audio/mp4''\<rparr>"
  have t: "InsertMessage ?t \<in> set (sendTextMessage (Some bob) ''  hi '')"
    by (simp add: sendTextMessage_def bob_def trim_def is_whitespace_def)
  have a: "InsertMessage ?a \<in> set (sendAudioMessage (Some bob) ?b 1723250000123 False)"
    by (simp add: sendAudioMessage_def Let_def audioFileName_def numberToString_def digits.simps
          bob_def audioMime_def audioExt_def extMapGet_def extMap_def or_else_def)
  note text_row = send_view_one_of [of ?t "Some bob" "''  hi ''" ?b 1723250000123 False]
  note audio_row = send_view_one_of [of ?a "Some bob" "''  hi ''" ?b 1723250000123 False]
  from text_row t have "message_text ?t = Some (trim ''  hi '')" by blast
  then have tr: "trim ''  hi '' = ''hi''" by simp
  from text_row t have "message_type ?t \<noteq> ''both''" by blast
  then have nt: "''text'' \<noteq> ''both''" by simp
  from audio_row a have "message_type ?a \<noteq> ''both''" by blast
  then have na: "''audio'' \<noteq> ''both''" by simp
  from t tr a na nt show ?thesis by blast
qed

section \<open>Marking a message as read\<close>

text \<open>
  C10. \<open>markAsRead\<close> keeps the length and order of the list. Every message keeps its
  id, recipient, text, audio reference, type and timestamp. A message with another id
  is unchanged, and, when the update reports no error, a message with the given id is
  the same message with \<open>is_read\<close> set to true.
\<close>

theorem markAsRead_frame:
  "length (markAsRead error messageId prev) = length prev
   \<and> (\<forall>i<length prev.
        msg_id (markAsRead error messageId prev ! i) = msg_id (prev ! i)
        \<and> recipient_id (markAsRead error messageId prev ! i) = recipient_id (prev ! i)
        \<and> message_text (markAsRead error messageId prev ! i) = message_text (prev ! i)
        \<and> audio_url (markAsRead error messageId prev ! i) = audio_url (prev ! i)
        \<and> message_type (markAsRead error messageId prev ! i) = message_type (prev ! i)
        \<and> created_at (markAsRead error messageId prev ! i) = created_at (prev ! i)
        \<and> (msg_id (prev ! i) \<noteq> messageId \<longrightarrow> markAsRead error messageId prev ! i = prev ! i)
        \<and> (msg_id (prev ! i) = messageId \<and> \<not> error \<longrightarrow>
             markAsRead error messageId prev ! i = (prev ! i)\<lparr>is_read := True\<rparr>))"
  by (simp add: markAsRead_def)

theorem markAsRead_frame_witness:
  "(0::nat) < length [textNote ''m1'' False, textNote ''m2'' False]
   \<and> (1::nat) < length [textNote ''m1'' False, textNote ''m2'' False]
   \<and> msg_id ([textNote ''m1'' False, textNote ''m2'' False] ! 0) \<noteq> ''m2''
   \<and> msg_id ([textNote ''m1'' False, textNote ''m2'' False] ! 1) = ''m2''
   \<and> markAsRead False ''m2'' [textNote ''m1'' False, textNote ''m2'' False]
       = [textNote ''m1'' False, textNote ''m2'' True]"
proof -
  let ?ms = "[textNote ''m1'' False, textNote ''m2'' False]"
  note t = markAsRead_frame [of False "''m2''" ?ms]
  have l0: "(0::nat) < length ?ms" and l1: "(1::nat) < length ?ms" by simp_all
  have i0: "msg_id (?ms ! 0) \<noteq> ''m2''" by (simp add: textNote_def)
  have i1: "msg_id (?ms ! 1) = ''m2''" by (simp add: textNote_def)
  from t have len: "length (markAsRead False ''m2'' ?ms) = 2" by simp
  from t l0 i0 have r0: "markAsRead False ''m2'' ?ms ! 0 = ?ms ! 0" by blast
  from t l1 i1 have r1: "markAsRead False ''m2'' ?ms ! 1 = (?ms ! 1)\<lparr>is_read := True\<rparr>"
    by blast
  have "markAsRead False ''m2'' ?ms = [textNote ''m1'' False, textNote ''m2'' True]"
  proof (rule nth_equalityI)
    show "length (markAsRead False ''m2'' ?ms)
            = length [textNote ''m1'' False, textNote ''m2'' True]"
      using len by simp
  next
    fix i assume "i < length (markAsRead False ''m2'' ?ms)"
    then have "i = 0 \<or> i = 1" using len by auto
    then show "markAsRead False ''m2'' ?ms ! i = [textNote ''m1'' False, textNote ''m2'' True] ! i"
      using r0 r1 by (auto simp: textNote_def)
  qed
  with l0 l1 i0 i1 show ?thesis by blast
qed

end
